theory Spec2Isabelle
  imports Complex_Main "HOL-Library.Log_Nat"
begin

section \<open>Python text primitives\<close>

text \<open>
  A Python \<open>str\<close> is a sequence of code points. The embedding covers the texts whose code
  points lie below 256: a text is a \<^typ>\<open>string\<close> and \<^term>\<open>of_char c\<close> is the code point of
  \<open>c\<close>. The character tables below are those of CPython on that range. The pound sign of
  the patterns is code point 163; the euro sign is code point 8364, which no character of
  such a text carries, so it is kept in the patterns as a code point.
\<close>

datatype error =
  IndexError | KeyError | AttributeError | ValueError | OverflowError | ZeroDivisionError

definition in_range :: "nat \<Rightarrow> nat \<Rightarrow> nat \<Rightarrow> bool" where
  "in_range lo hi n = (lo \<le> n \<and> n \<le> hi)"

definition py_isspace :: "char \<Rightarrow> bool" where
  \<comment> \<open>\<open>str.isspace\<close> on one character; also the class \<open>\s\<close> and what \<open>strip\<close> and \<open>split\<close> remove\<close>
  "py_isspace c = (let n = of_char c in in_range 9 13 n \<or> in_range 28 32 n \<or> n = 133 \<or> n = 160)"

definition py_isdigit :: "char \<Rightarrow> bool" where
  \<comment> \<open>the class \<open>\d\<close>: the decimal digits\<close>
  "py_isdigit c = in_range 48 57 (of_char c)"

definition py_isword :: "char \<Rightarrow> bool" where
  \<comment> \<open>the class \<open>\w\<close>: alphanumeric characters and the underscore\<close>
  "py_isword c = (let n = of_char c in
     in_range 48 57 n \<or> in_range 65 90 n \<or> n = 95 \<or> in_range 97 122 n \<or> n = 170 \<or>
     in_range 178 179 n \<or> n = 181 \<or> in_range 185 186 n \<or> in_range 188 190 n \<or>
     in_range 192 214 n \<or> in_range 216 246 n \<or> in_range 248 255 n)"

definition py_lower :: "char \<Rightarrow> nat" where
  \<comment> \<open>the lower-case mapping, as a code point\<close>
  "py_lower c = (let n = of_char c in
     if in_range 65 90 n \<or> (in_range 192 222 n \<and> n \<noteq> 215) then n + 32 else n)"

definition sre_upper :: "char \<Rightarrow> nat" where
  \<comment> \<open>the simple upper-case mapping, as a code point\<close>
  "sre_upper c = (let n = of_char c in
     if in_range 97 122 n \<or> (in_range 224 254 n \<and> n \<noteq> 247) then n - 32
     else if n = 181 then 924 else if n = 255 then 376 else n)"

definition py_upper :: "string \<Rightarrow> nat list" where
  \<comment> \<open>\<open>str.upper\<close>: the full mapping, under which code point 223 becomes two letters\<close>
  "py_upper s = concat (map (\<lambda>c. if of_char c = (223::nat) then [83, 83] else [sre_upper c]) s)"

fun split_on :: "char \<Rightarrow> string \<Rightarrow> string list" where
  \<comment> \<open>\<open>s.split(sep)\<close> for a separator of one character\<close>
  "split_on sep [] = [[]]"
| "split_on sep (c # cs) =
     (if c = sep then [] # split_on sep cs
      else (case split_on sep cs of [] \<Rightarrow> [[c]] | w # ws \<Rightarrow> (c # w) # ws))"

fun split_ws :: "string \<Rightarrow> string \<Rightarrow> string list" where
  \<comment> \<open>\<open>s.split()\<close>: the maximal runs of characters that are not whitespace; the first
      argument is the run being read\<close>
  "split_ws cur [] = (if cur = [] then [] else [cur])"
| "split_ws cur (c # cs) =
     (if py_isspace c then (if cur = [] then split_ws [] cs else cur # split_ws [] cs)
      else split_ws (cur @ [c]) cs)"

definition py_split :: "string \<Rightarrow> string list" where
  "py_split s = split_ws [] s"

definition py_strip :: "string \<Rightarrow> string" where
  "py_strip s = rev (dropWhile py_isspace (rev (dropWhile py_isspace s)))"

fun py_join :: "string \<Rightarrow> string list \<Rightarrow> string" where
  "py_join sep [] = []"
| "py_join sep [x] = x"
| "py_join sep (x # y # ys) = x @ sep @ py_join sep (y # ys)"

fun starts_with :: "'a list \<Rightarrow> 'a list \<Rightarrow> bool" where
  "starts_with [] s = True"
| "starts_with (w # ws) [] = False"
| "starts_with (w # ws) (c # cs) = (w = c \<and> starts_with ws cs)"

fun py_in :: "'a list \<Rightarrow> 'a list \<Rightarrow> bool" where
  \<comment> \<open>\<open>w in s\<close> on strings: \<open>w\<close> occurs in \<open>s\<close> as a contiguous piece\<close>
  "py_in w [] = (w = [])"
| "py_in w (c # cs) = (starts_with w (c # cs) \<or> py_in w cs)"

fun py_index :: "'a list \<Rightarrow> nat \<Rightarrow> error + 'a" where
  \<comment> \<open>\<open>xs[i]\<close> for \<open>i \<ge> 0\<close>\<close>
  "py_index [] i = Inl IndexError"
| "py_index (x # xs) 0 = Inr x"
| "py_index (x # xs) (Suc i) = py_index xs i"

section \<open>Regular expressions\<close>

text \<open>
  The patterns of the source are kept as data and run by a backtracking matcher with the
  priorities of Python's \<open>re\<close>: alternatives left to right, repetitions greedy. Every search
  of the source passes \<open>re.IGNORECASE\<close>, so the matcher compares letters up to case;
  \<open>re.MULTILINE\<close> changes only the anchors, which no pattern uses.
\<close>

datatype citem =
    CLit char          \<comment> \<open>a literal character\<close>
  | CCode nat          \<comment> \<open>a literal given by its code point\<close>
  | CRange char char   \<comment> \<open>\<open>a-z\<close> inside a set\<close>
  | CDigit             \<comment> \<open>\<open>\d\<close>\<close>
  | CWord              \<comment> \<open>\<open>\w\<close>\<close>
  | CSpace             \<comment> \<open>\<open>\s\<close>\<close>

datatype regex =
    Eps
  | Atom "citem list"            \<comment> \<open>one character matching any of the items\<close>
  | Seq regex regex
  | Alt regex regex
  | Rep nat "nat option" regex   \<comment> \<open>greedy \<open>{lo,hi}\<close>; no upper bound when \<open>None\<close>\<close>
  | Group nat regex              \<comment> \<open>capturing group with its number\<close>

fun item_match :: "citem \<Rightarrow> char \<Rightarrow> bool" where
  "item_match (CLit p) c = (py_lower c = py_lower p)"
| "item_match (CCode n) c = (of_char c = n)"
| "item_match (CRange lo hi) c =
     (in_range (of_char lo) (of_char hi) (of_char c) \<or>
      in_range (of_char lo) (of_char hi) (py_lower c) \<or>
      in_range (of_char lo) (of_char hi) (sre_upper c))"
| "item_match CDigit c = py_isdigit c"
| "item_match CWord c = py_isword c"
| "item_match CSpace c = py_isspace c"

definition items_match :: "citem list \<Rightarrow> char \<Rightarrow> bool" where
  "items_match its c = list_ex (\<lambda>it. item_match it c) its"

type_synonym caps = "nat \<rightharpoonup> string"

type_synonym mstate = "string \<times> caps"

fun rep_iter :: "(mstate \<Rightarrow> mstate list) \<Rightarrow> nat \<Rightarrow> nat \<Rightarrow> mstate \<Rightarrow> mstate list" where
  \<comment> \<open>\<open>rep_iter f lo k st\<close>: at least \<open>lo\<close> and at most \<open>k\<close> more rounds of \<open>f\<close>, longest first;
      a round beyond the minimum that reads nothing is not repeated\<close>
  "rep_iter f lo 0 st = (if lo = 0 then [st] else [])"
| "rep_iter f lo (Suc k) st =
     concat (map (rep_iter f (lo - 1) k)
                 (filter (\<lambda>st'. 0 < lo \<or> length (fst st') < length (fst st)) (f st)))
     @ (if lo = 0 then [st] else [])"

fun rmatch :: "regex \<Rightarrow> mstate \<Rightarrow> mstate list" where
  \<comment> \<open>all ways to match at the head of the text, in the order the engine tries them: each
      is the text left over and the groups captured\<close>
  "rmatch Eps st = [st]"
| "rmatch (Atom its) (s, g) =
     (case s of [] \<Rightarrow> [] | c # cs \<Rightarrow> if items_match its c then [(cs, g)] else [])"
| "rmatch (Seq r1 r2) st = concat (map (rmatch r2) (rmatch r1 st))"
| "rmatch (Alt r1 r2) st = rmatch r1 st @ rmatch r2 st"
| "rmatch (Rep lo hi r) st =
     rep_iter (rmatch r) lo (case hi of None \<Rightarrow> lo + length (fst st) | Some h \<Rightarrow> h) st"
| "rmatch (Group n r) (s, g) =
     map (\<lambda>(s', g'). (s', g'(n \<mapsto> take (length s - length s') s))) (rmatch r (s, g))"

fun ngroups :: "regex \<Rightarrow> nat" where
  "ngroups Eps = 0"
| "ngroups (Atom its) = 0"
| "ngroups (Seq r1 r2) = max (ngroups r1) (ngroups r2)"
| "ngroups (Alt r1 r2) = max (ngroups r1) (ngroups r2)"
| "ngroups (Rep lo hi r) = ngroups r"
| "ngroups (Group n r) = max n (ngroups r)"

type_synonym match = "nat \<times> caps"

fun search_from :: "regex \<Rightarrow> string \<Rightarrow> caps option" where
  "search_from r [] = (case rmatch r ([], Map.empty) of [] \<Rightarrow> None | (s', g) # _ \<Rightarrow> Some g)"
| "search_from r (c # cs) =
     (case rmatch r (c # cs, Map.empty) of [] \<Rightarrow> search_from r cs | (s', g) # _ \<Rightarrow> Some g)"

definition re_search :: "regex \<Rightarrow> string \<Rightarrow> match option" where
  \<comment> \<open>\<open>re.search(pattern, s, re.IGNORECASE)\<close>: the first match at the leftmost position\<close>
  "re_search r s = map_option (\<lambda>g. (ngroups r, g)) (search_from r s)"

definition group :: "match \<Rightarrow> nat \<Rightarrow> error + string option" where
  \<comment> \<open>\<open>m.group(n)\<close>: no such group raises, a group that took no part is \<open>None\<close>\<close>
  "group m n = (if n \<le> fst m then Inr (snd m n) else Inl IndexError)"

definition lits :: "string \<Rightarrow> regex" where
  "lits w = foldr (\<lambda>c r. Seq (Atom [CLit c]) r) w Eps"

definition seqs :: "regex list \<Rightarrow> regex" where
  "seqs rs = foldr Seq rs Eps"

definition alts :: "regex \<Rightarrow> regex list \<Rightarrow> regex" where
  "alts r rs = foldr (\<lambda>a b. Alt a b) (butlast (r # rs)) (last (r # rs))"

abbreviation star :: "regex \<Rightarrow> regex" where "star r \<equiv> Rep 0 None r"

abbreviation plus :: "regex \<Rightarrow> regex" where "plus r \<equiv> Rep 1 None r"

abbreviation opt :: "regex \<Rightarrow> regex" where "opt r \<equiv> Rep 0 (Some 1) r"

abbreviation times :: "nat \<Rightarrow> regex \<Rightarrow> regex" where "times n r \<equiv> Rep n (Some n) r"

section \<open>Configuration\<close>

definition amount_chars :: regex where
  \<comment> \<open>\<open>[\d,\.]\<close>\<close>
  "amount_chars = Atom [CDigit, CLit CHR '','', CLit CHR ''.'']"

definition invoice_number_pattern :: regex where
  \<comment> \<open>\<open>(?:Invoice No\.|Invoice|Bill)\s*[:#-]\s*(\w+)\<close>\<close>
  "invoice_number_pattern = seqs
     [alts (lits ''Invoice No.'') [lits ''Invoice'', lits ''Bill''],
      star (Atom [CSpace]), Atom [CLit CHR '':'', CLit CHR ''#'', CLit CHR ''-''],
      star (Atom [CSpace]), Group 1 (plus (Atom [CWord]))]"

definition date_pattern :: regex where
  \<comment> \<open>\<open>(?:Invoice Date|DATED|Date)\s*[:#-]\s*(\d{2}[-/]\d{2}[-/]\d{2,4})\<close>\<close>
  "date_pattern = seqs
     [alts (lits ''Invoice Date'') [lits ''DATED'', lits ''Date''],
      star (Atom [CSpace]), Atom [CLit CHR '':'', CLit CHR ''#'', CLit CHR ''-''],
      star (Atom [CSpace]),
      Group 1 (seqs [times 2 (Atom [CDigit]), Atom [CLit CHR ''-'', CLit CHR ''/''],
                     times 2 (Atom [CDigit]), Atom [CLit CHR ''-'', CLit CHR ''/''],
                     Rep 2 (Some 4) (Atom [CDigit])])]"

definition total_amount_pattern :: regex where
  \<comment> \<open>\<open>(?:PAYABLE AMOUNT|GRAND TOTAL|TOTAL|AMOUNT DUE|BALANCE)\s*\<close>
      \<open>(?:[A-Z]{3}|\$|\<euro>|\<pounds>|Rs\.\s*)?\s*([\d,\.]+)\<close> with the euro and pound signs as
      code points\<close>
  "total_amount_pattern = seqs
     [alts (lits ''PAYABLE AMOUNT'')
        [lits ''GRAND TOTAL'', lits ''TOTAL'', lits ''AMOUNT DUE'', lits ''BALANCE''],
      star (Atom [CSpace]),
      opt (alts (times 3 (Atom [CRange CHR ''A'' CHR ''Z'']))
             [Atom [CLit CHR ''$''], Atom [CCode 8364], Atom [CCode 163],
              seqs [lits ''Rs.'', star (Atom [CSpace])]]),
      star (Atom [CSpace]), Group 1 (plus amount_chars)]"

definition tax_amount_pattern :: regex where
  \<comment> \<open>\<open>(?:TAX|GST|VAT|SGST|CGST)\s*RATE\s*@\s*\d+%?\s*Rs\.\s*([\d,\.]+)\<close>\<close>
  "tax_amount_pattern = seqs
     [alts (lits ''TAX'') [lits ''GST'', lits ''VAT'', lits ''SGST'', lits ''CGST''],
      star (Atom [CSpace]), lits ''RATE'', star (Atom [CSpace]), Atom [CLit CHR ''@''],
      star (Atom [CSpace]), plus (Atom [CDigit]), opt (Atom [CLit CHR ''%'']),
      star (Atom [CSpace]), lits ''Rs.'', star (Atom [CSpace]), Group 1 (plus amount_chars)]"

definition vendor_name_pattern :: regex where
  \<comment> \<open>\<open>(S\.K\.P\.S DIGITAL)\<close>\<close>
  "vendor_name_pattern = Group 1 (lits ''S.K.P.S DIGITAL'')"

definition gst_number_pattern :: regex where
  \<comment> \<open>\<open>(?:GSTIN|VAT ID|Tax ID)\s*[:#]\s*(\w+)\<close>\<close>
  "gst_number_pattern = seqs
     [alts (lits ''GSTIN'') [lits ''VAT ID'', lits ''Tax ID''],
      star (Atom [CSpace]), Atom [CLit CHR '':'', CLit CHR ''#''],
      star (Atom [CSpace]), Group 1 (plus (Atom [CWord]))]"

definition line_item_pattern :: regex where
  \<comment> \<open>\<open>ITEM NAME \d\s+Rs\.\s*([\d,\.]+)\s+Rs\.\s*([\d,\.]+)\<close>\<close>
  "line_item_pattern = seqs
     [lits ''ITEM NAME '', Atom [CDigit], plus (Atom [CSpace]), lits ''Rs.'',
      star (Atom [CSpace]), Group 1 (plus amount_chars), plus (Atom [CSpace]), lits ''Rs.'',
      star (Atom [CSpace]), Group 2 (plus amount_chars)]"

definition INVOICE_CONFIG :: "(string \<times> regex) list" where
  "INVOICE_CONFIG =
     [(''invoice_number'', invoice_number_pattern),
      (''date'', date_pattern),
      (''total_amount'', total_amount_pattern),
      (''tax_amount'', tax_amount_pattern),
      (''vendor_name'', vendor_name_pattern),
      (''gst_number'', gst_number_pattern),
      (''line_item_pattern'', line_item_pattern)]"

definition acme_invoice_number_pattern :: regex where
  \<comment> \<open>\<open>ACME-INV-(\d+)\<close>\<close>
  "acme_invoice_number_pattern = seqs [lits ''ACME-INV-'', Group 1 (plus (Atom [CDigit]))]"

definition acme_date_pattern :: regex where
  \<comment> \<open>\<open>Billing Date:\s*(\d{4}-\d{2}-\d{2})\<close>\<close>
  "acme_date_pattern = seqs
     [lits ''Billing Date:'', star (Atom [CSpace]),
      Group 1 (seqs [times 4 (Atom [CDigit]), Atom [CLit CHR ''-''], times 2 (Atom [CDigit]),
                     Atom [CLit CHR ''-''], times 2 (Atom [CDigit])])]"

record vendor_template =
  template_vendor_name :: string
  regex_overrides :: "(string \<times> regex) list"

definition KNOWN_VENDOR_TEMPLATE :: vendor_template where
  "KNOWN_VENDOR_TEMPLATE =
     \<lparr>template_vendor_name = ''Acme Corp'',
      regex_overrides = [(''invoice_number'', acme_invoice_number_pattern),
                         (''date'', acme_date_pattern)]\<rparr>"

definition item_header_pattern :: regex where
  \<comment> \<open>\<open>ITEM NAME \d\<close>\<close>
  "item_header_pattern = seqs [lits ''ITEM NAME '', Atom [CDigit]]"

definition summary_pattern :: regex where
  \<comment> \<open>\<open>(SUBTOTAL|TAX|TOTAL|BALANCE|GST|PAYABLE)\<close>\<close>
  "summary_pattern = Group 1 (alts (lits ''SUBTOTAL'')
     [lits ''TAX'', lits ''TOTAL'', lits ''BALANCE'', lits ''GST'', lits ''PAYABLE''])"

section \<open>Python floats\<close>

text \<open>
  A \<open>float\<close> is a binary64 value: a finite one is the rational it denotes, and every
  operation rounds its exact result to the nearest binary64 value, ties to even. The sign
  of zero is not kept: no comparison below tells the two zeros apart.
\<close>

datatype pyfloat = Finite rat | PInf | NInf | NaN

definition round_half_even :: "rat \<Rightarrow> int" where
  "round_half_even q = (let f = \<lfloor>q\<rfloor>; d = q - of_int f in
     if d < 1 / 2 then f else if 1 / 2 < d then f + 1 else if even f then f else f + 1)"

definition floor_log2 :: "rat \<Rightarrow> int" where
  \<comment> \<open>for \<open>q > 0\<close>, the \<open>e\<close> with \<open>2 ^ e \<le> q < 2 ^ (e + 1)\<close>\<close>
  "floor_log2 q = (if 1 \<le> q then int (floorlog 2 (nat \<lfloor>q\<rfloor>)) - 1
                   else - int (floorlog 2 (nat (\<lceil>1 / q\<rceil> - 1))))"

definition round64 :: "rat \<Rightarrow> pyfloat" where
  \<comment> \<open>the nearest binary64 value: 53 significant bits, least exponent -1022, overflow to
      an infinity\<close>
  "round64 q = (if q = 0 then Finite 0 else
     let e = max (floor_log2 \<bar>q\<bar>) (- 1022);
         ulp = power_int 2 (e - 52);
         v = of_int (round_half_even (q / ulp)) * ulp
     in if 2 ^ 1024 \<le> \<bar>v\<bar> then (if 0 < q then PInf else NInf) else Finite v)"

definition truthy :: "pyfloat option \<Rightarrow> bool" where
  \<comment> \<open>the truth value of an \<open>Optional[float]\<close>: \<open>None\<close> and zero are false\<close>
  "truthy x = (case x of None \<Rightarrow> False | Some v \<Rightarrow> v \<noteq> Finite 0)"

fun gt_zero :: "pyfloat \<Rightarrow> bool" where
  \<comment> \<open>\<open>x > 0\<close>\<close>
  "gt_zero (Finite q) = (0 < q)"
| "gt_zero PInf = True"
| "gt_zero NInf = False"
| "gt_zero NaN = False"

fun fneg :: "pyfloat \<Rightarrow> pyfloat" where
  "fneg (Finite q) = Finite (- q)"
| "fneg PInf = NInf"
| "fneg NInf = PInf"
| "fneg NaN = NaN"

fun fdiv :: "pyfloat \<Rightarrow> pyfloat \<Rightarrow> error + pyfloat" where
  \<comment> \<open>\<open>x / y\<close>\<close>
  "fdiv x (Finite b) =
     (if b = 0 then Inl ZeroDivisionError
      else (case x of Finite a \<Rightarrow> Inr (round64 (a / b))
            | PInf \<Rightarrow> Inr (if 0 < b then PInf else NInf)
            | NInf \<Rightarrow> Inr (if 0 < b then NInf else PInf)
            | NaN \<Rightarrow> Inr NaN))"
| "fdiv x PInf = (case x of Finite a \<Rightarrow> Inr (Finite 0) | _ \<Rightarrow> Inr NaN)"
| "fdiv x NInf = (case x of Finite a \<Rightarrow> Inr (Finite 0) | _ \<Rightarrow> Inr NaN)"
| "fdiv x NaN = Inr NaN"

fun py_round :: "pyfloat \<Rightarrow> error + int" where
  \<comment> \<open>\<open>round(x)\<close> with one argument: the nearest integer, ties to even\<close>
  "py_round (Finite q) = Inr (round_half_even q)"
| "py_round NaN = Inl ValueError"
| "py_round PInf = Inl OverflowError"
| "py_round NInf = Inl OverflowError"

definition float_of_int :: "int \<Rightarrow> error + pyfloat" where
  \<comment> \<open>\<open>float(n)\<close> of an integer\<close>
  "float_of_int n = (case round64 (of_int n) of Finite v \<Rightarrow> Inr (Finite v)
                     | _ \<Rightarrow> Inl OverflowError)"

subsection \<open>\<open>float\<close> of a string\<close>

definition float_isspace :: "char \<Rightarrow> bool" where
  \<comment> \<open>the blanks \<open>float\<close> removes at both ends\<close>
  "float_isspace c = (let n = of_char c in in_range 9 13 n \<or> n = 32 \<or> n = 133 \<or> n = 160)"

fun more_digits :: "string \<Rightarrow> string \<times> string" where
  \<comment> \<open>after a digit: \<open>(["_"] digit)*\<close>, giving the digits read and the rest\<close>
  "more_digits [] = ([], [])"
| "more_digits [c] = (if py_isdigit c then ([c], []) else ([], [c]))"
| "more_digits (c # c' # cs) =
     (if py_isdigit c then (let (d, r) = more_digits (c' # cs) in (c # d, r))
      else if c = CHR ''_'' \<and> py_isdigit c' then (let (d, r) = more_digits cs in (c' # d, r))
      else ([], c # c' # cs))"

definition digitpart :: "string \<Rightarrow> (string \<times> string) option" where
  \<comment> \<open>\<open>digit (["_"] digit)*\<close>\<close>
  "digitpart s = (case s of [] \<Rightarrow> None
     | c # cs \<Rightarrow> if py_isdigit c then (let (d, r) = more_digits cs in Some (c # d, r)) else None)"

definition digits_val :: "string \<Rightarrow> nat" where
  "digits_val ds = foldl (\<lambda>n c. 10 * n + (of_char c - 48)) 0 ds"

definition number :: "string \<Rightarrow> ((string \<times> string) \<times> string) option" where
  \<comment> \<open>\<open>[digitpart] "." digitpart | digitpart ["."]\<close>: the integer digits, the fraction
      digits and the rest\<close>
  "number s = (case digitpart s of
       Some (ip, r) \<Rightarrow>
         (case r of [] \<Rightarrow> Some ((ip, []), [])
          | c # r' \<Rightarrow> if c = CHR ''.'' then
                        (case digitpart r' of Some (fp, r'') \<Rightarrow> Some ((ip, fp), r'')
                         | None \<Rightarrow> Some ((ip, []), r'))
                      else Some ((ip, []), r))
     | None \<Rightarrow>
         (case s of [] \<Rightarrow> None
          | c # r' \<Rightarrow> if c = CHR ''.'' then
                        (case digitpart r' of Some (fp, r'') \<Rightarrow> Some (([], fp), r'')
                         | None \<Rightarrow> None)
                      else None))"

definition exponent :: "string \<Rightarrow> int option" where
  \<comment> \<open>what follows the number: nothing, or \<open>("e" | "E") [sign] digitpart\<close> to the end\<close>
  "exponent s = (case s of [] \<Rightarrow> Some 0
     | c # cs \<Rightarrow> if c = CHR ''e'' \<or> c = CHR ''E'' then
         (let (sg, r) = (case cs of [] \<Rightarrow> (1, cs)
                         | c' # cs' \<Rightarrow> if c' = CHR ''+'' then (1, cs')
                                      else if c' = CHR ''-'' then (- 1, cs') else (1, cs))
          in case digitpart r of Some (d, []) \<Rightarrow> Some (sg * int (digits_val d))
             | _ \<Rightarrow> None)
       else None)"

definition floatnumber :: "string \<Rightarrow> rat option" where
  "floatnumber s = (case number s of None \<Rightarrow> None
     | Some ((ip, fp), r) \<Rightarrow>
         (case exponent r of None \<Rightarrow> None
          | Some e \<Rightarrow> Some (of_nat (digits_val (ip @ fp)) * power_int 10 (e - int (length fp)))))"

definition absfloatvalue :: "string \<Rightarrow> pyfloat option" where
  "absfloatvalue s = (let l = map py_lower s in
     if l = map of_char ''inf'' \<or> l = map of_char ''infinity'' then Some PInf
     else if l = map of_char ''nan'' then Some NaN
     else map_option round64 (floatnumber s))"

definition py_float :: "string \<Rightarrow> pyfloat option" where
  \<comment> \<open>\<open>float(s)\<close>; \<open>None\<close> stands for the \<open>ValueError\<close>, the only exception it raises on a
      string\<close>
  "py_float s = (let t = rev (dropWhile float_isspace (rev (dropWhile float_isspace s))) in
     case t of [] \<Rightarrow> None
     | c # cs \<Rightarrow> if c = CHR ''-'' then map_option fneg (absfloatvalue cs)
                 else if c = CHR ''+'' then absfloatvalue cs
                 else absfloatvalue t)"

section \<open>Parsing\<close>

definition parse_float :: "string \<Rightarrow> pyfloat option" where
  \<comment> \<open>the set removed by \<open>re.sub\<close> is \<open>[$,\<euro>\<pounds>()]\<close>, given by code points\<close>
  "parse_float val =
     (if val \<noteq> [] then
        (let clean_value =
               py_strip (filter (\<lambda>c. c \<noteq> CHR '','')
                 (filter (\<lambda>c. of_char c \<notin> set [36, 44, 8364, 163, 40, 41 :: nat]) val))
         in py_float clean_value)
      else None)"

record LineItem =
  quantity :: "pyfloat option"
  description :: string
  unit_price :: "pyfloat option"
  line_total :: "pyfloat option"

record ParsedInvoice =
  invoice_id :: string
  vendor_name :: "string option"
  invoice_number :: "string option"
  date :: "string option"
  total_amount :: "pyfloat option"
  tax_amount :: "pyfloat option"
  gst_number :: "string option"
  line_items :: "LineItem list"
  raw_text :: string

definition bind :: "error + 'a \<Rightarrow> ('a \<Rightarrow> error + 'b) \<Rightarrow> error + 'b" where
  "bind x f = (case x of Inl e \<Rightarrow> Inl e | Inr v \<Rightarrow> f v)"

definition group_strip :: "match \<Rightarrow> nat \<Rightarrow> error + string" where
  \<comment> \<open>\<open>m.group(n).strip()\<close>: \<open>strip\<close> of a group that took no part raises\<close>
  "group_strip m n = bind (group m n)
     (\<lambda>v. case v of None \<Rightarrow> Inl AttributeError | Some s \<Rightarrow> Inr (py_strip s))"

subsection \<open>Line items\<close>

fun start_index :: "string list \<Rightarrow> nat option" where
  \<comment> \<open>the index of the first line with the header signature; \<open>None\<close> for the source's -1\<close>
  "start_index [] = None"
| "start_index (line # lines) =
     (if re_search item_header_pattern line \<noteq> None then Some 0
      else map_option Suc (start_index lines))"

definition item_quantity :: "pyfloat option \<Rightarrow> pyfloat option \<Rightarrow> error + pyfloat" where
  \<comment> \<open>the value passed as \<open>quantity\<close>: 1.0, or \<open>float(round(line_total / unit_price))\<close>
      under the guard \<open>unit_price and line_total and unit_price > 0\<close>\<close>
  "item_quantity up lt =
     (case (up, lt) of
        (Some u, Some t) \<Rightarrow>
          if truthy up \<and> truthy lt \<and> gt_zero u
          then bind (fdiv t u) (\<lambda>d. bind (py_round d) float_of_int)
          else Inr (Finite 1)
      | _ \<Rightarrow> Inr (Finite 1))"

definition line_body :: "string \<Rightarrow> match \<Rightarrow> error + LineItem option" where
  \<comment> \<open>the body of the \<open>try\<close> for a line the pattern matched\<close>
  "line_body line m =
     bind (py_index (py_split line) 2) (\<lambda>tok.
     let descr = ''ITEM NAME '' @ tok in
     bind (group_strip m 1) (\<lambda>s1.
     let up = parse_float s1 in
     bind (group_strip m 2) (\<lambda>s2.
     let lt = parse_float s2 in
     bind (item_quantity up lt) (\<lambda>q.
     if descr \<noteq> []
     then Inr (Some \<lparr>quantity = Some q, description = descr, unit_price = up, line_total = lt\<rparr>)
     else Inr None))))"

definition process_line :: "regex \<Rightarrow> string \<Rightarrow> LineItem option" where
  \<comment> \<open>one round of the loop over the lines: the item it appends, if any; both handlers
      of the \<open>try\<close> go on with the next line\<close>
  "process_line pattern line =
     (if re_search summary_pattern line = None then
        (case re_search pattern line of
           None \<Rightarrow> None
         | Some m \<Rightarrow> (case line_body line m of
                        Inl e \<Rightarrow> None
                      | Inr r \<Rightarrow> r))
      else None)"

fun items_loop :: "regex \<Rightarrow> string list \<Rightarrow> LineItem list" where
  "items_loop pattern [] = []"
| "items_loop pattern (line # lines) =
     (case process_line pattern line of
        None \<Rightarrow> items_loop pattern lines
      | Some item \<Rightarrow> item # items_loop pattern lines)"

definition parse_line_items :: "string \<Rightarrow> regex \<Rightarrow> LineItem list" where
  "parse_line_items raw pattern =
     (let lines = split_on CHR 0x0A raw in
      case start_index lines of
        None \<Rightarrow> []
      | Some i \<Rightarrow> items_loop pattern (drop i lines))"

subsection \<open>Header fields\<close>

datatype pyval = PyNone | PyStr string | PyFloat pyfloat

fun dict_set :: "'k \<Rightarrow> 'v \<Rightarrow> ('k \<times> 'v) list \<Rightarrow> ('k \<times> 'v) list" where
  \<comment> \<open>\<open>d[k] = v\<close> on a dictionary in insertion order\<close>
  "dict_set k v [] = [(k, v)]"
| "dict_set k v ((k', v') # d) = (if k' = k then (k, v) # d else (k', v') # dict_set k v d)"

fun dict_update :: "('k \<times> 'v) list \<Rightarrow> ('k \<times> 'v) list \<Rightarrow> ('k \<times> 'v) list" where
  "dict_update d [] = d"
| "dict_update d ((k, v) # kvs) = dict_update (dict_set k v d) kvs"

definition is_known_vendor :: "string \<Rightarrow> bool" where
  "is_known_vendor raw =
     (let first_lines = py_upper (py_join [CHR 0x0A] (take 5 (split_on CHR 0x0A raw)))
      in py_in (py_upper (template_vendor_name KNOWN_VENDOR_TEMPLATE)) first_lines)"

definition patterns :: "string \<Rightarrow> (string \<times> regex) list" where
  "patterns raw =
     (if is_known_vendor raw
      then dict_update INVOICE_CONFIG (regex_overrides KNOWN_VENDOR_TEMPLATE)
      else INVOICE_CONFIG)"

definition extract_field :: "string \<Rightarrow> regex \<Rightarrow> string \<Rightarrow> error + pyval option" where
  \<comment> \<open>one round of the loop over the fields: what it stores under the field, if anything;
      only the \<open>IndexError\<close> of \<open>group\<close> is handled\<close>
  "extract_field field pattern raw =
     (case re_search pattern raw of
        None \<Rightarrow> Inr None
      | Some m \<Rightarrow>
          (case group_strip m 1 of
             Inl e \<Rightarrow> (if e = IndexError then Inr None else Inl e)
           | Inr val \<Rightarrow>
               if field \<in> set [''total_amount'', ''tax_amount'']
               then Inr (Some (case parse_float val of None \<Rightarrow> PyNone | Some x \<Rightarrow> PyFloat x))
               else Inr (Some (PyStr val))))"

fun extract_fields ::
  "(string \<times> regex) list \<Rightarrow> string \<Rightarrow> (string \<rightharpoonup> pyval) \<Rightarrow> error + (string \<rightharpoonup> pyval)" where
  "extract_fields [] raw parsed_data = Inr parsed_data"
| "extract_fields ((field, pattern) # rest) raw parsed_data =
     (if field \<notin> set [''line_item_pattern''] then
        bind (extract_field field pattern raw) (\<lambda>r.
          extract_fields rest raw
            (case r of None \<Rightarrow> parsed_data | Some v \<Rightarrow> parsed_data(field \<mapsto> v)))
      else extract_fields rest raw parsed_data)"

definition str_field :: "(string \<rightharpoonup> pyval) \<Rightarrow> string \<Rightarrow> string option" where
  "str_field d k = (case d k of Some (PyStr s) \<Rightarrow> Some s | _ \<Rightarrow> None)"

definition float_field :: "(string \<rightharpoonup> pyval) \<Rightarrow> string \<Rightarrow> pyfloat option" where
  "float_field d k = (case d k of Some (PyFloat x) \<Rightarrow> Some x | _ \<Rightarrow> None)"

definition dict_get :: "('k \<times> 'v) list \<Rightarrow> 'k \<Rightarrow> error + 'v" where
  "dict_get d k = (case map_of d k of None \<Rightarrow> Inl KeyError | Some v \<Rightarrow> Inr v)"

definition parse_invoice_data :: "string \<Rightarrow> string \<Rightarrow> error + ParsedInvoice" where
  \<comment> \<open>the first argument is the identifier drawn by \<open>uuid.uuid4()\<close>; the keys of
      \<open>parsed_data\<close> are fields of the model, each with a value of the field's type\<close>
  "parse_invoice_data uuid raw =
     bind (extract_fields (patterns raw) raw Map.empty) (\<lambda>parsed_data.
     bind (dict_get INVOICE_CONFIG ''line_item_pattern'') (\<lambda>lip.
     Inr \<lparr>invoice_id = uuid,
          vendor_name = str_field parsed_data ''vendor_name'',
          invoice_number = str_field parsed_data ''invoice_number'',
          date = str_field parsed_data ''date'',
          total_amount = float_field parsed_data ''total_amount'',
          tax_amount = float_field parsed_data ''tax_amount'',
          gst_number = str_field parsed_data ''gst_number'',
          line_items = parse_line_items raw lip,
          raw_text = raw\<rparr>))"

section \<open>Notions of the specification\<close>

fun starts_ci :: "string \<Rightarrow> string \<Rightarrow> bool" where
  \<comment> \<open>the text begins with the word, letters compared up to case\<close>
  "starts_ci [] s = True"
| "starts_ci (p # ps) [] = False"
| "starts_ci (p # ps) (c # cs) = (py_lower c = py_lower p \<and> starts_ci ps cs)"

fun occurs_ci :: "string \<Rightarrow> string \<Rightarrow> bool" where
  \<comment> \<open>the text contains the word, letters compared up to case\<close>
  "occurs_ci w [] = starts_ci w []"
| "occurs_ci w (c # cs) = (starts_ci w (c # cs) \<or> occurs_ci w cs)"

definition is_suffix :: "mstate \<Rightarrow> mstate \<Rightarrow> bool" where
  "is_suffix a b = (\<exists>w. fst a = w @ fst b)"


fun sets_group :: "nat \<Rightarrow> regex \<Rightarrow> bool" where
  \<comment> \<open>by its shape, every match of the pattern captures the group\<close>
  "sets_group n Eps = False"
| "sets_group n (Atom its) = False"
| "sets_group n (Seq r1 r2) = (sets_group n r1 \<or> sets_group n r2)"
| "sets_group n (Alt r1 r2) = (sets_group n r1 \<and> sets_group n r2)"
| "sets_group n (Rep lo hi r) = False"
| "sets_group n (Group m r) = (m = n \<or> sets_group n r)"

definition keeps_group :: "nat \<Rightarrow> mstate \<Rightarrow> mstate \<Rightarrow> bool" where
  "keeps_group n a b = (snd a n \<noteq> None \<longrightarrow> snd b n \<noteq> None)"

definition field_text :: "regex \<Rightarrow> string \<Rightarrow> string option" where
  \<comment> \<open>the trimmed text of group 1 at the first match of the pattern\<close>
  "field_text p raw = (case search_from p raw of None \<Rightarrow> None
                       | Some g \<Rightarrow> map_option py_strip (g 1))"

definition stored :: "string \<Rightarrow> string option \<Rightarrow> pyval option" where
  \<comment> \<open>what the loop over the fields stores for a trimmed group text\<close>
  "stored field t = (case t of None \<Rightarrow> None
     | Some v \<Rightarrow> Some (if field \<in> set [''total_amount'', ''tax_amount'']
                       then (case parse_float v of None \<Rightarrow> PyNone | Some x \<Rightarrow> PyFloat x)
                       else PyStr v))"

definition effective :: "string \<Rightarrow> regex \<Rightarrow> regex \<Rightarrow> regex" where
  \<comment> \<open>the pattern in force for a field the known vendor overrides\<close>
  "effective raw base override = (if is_known_vendor raw then override else base)"

definition header_value :: "ParsedInvoice \<Rightarrow> string \<Rightarrow> pyval option" where
  \<comment> \<open>a header field of the result by its name; \<open>None\<close> when it is absent\<close>
  "header_value invoice f =
     (if f = ''vendor_name'' then map_option PyStr (vendor_name invoice)
      else if f = ''invoice_number'' then map_option PyStr (invoice_number invoice)
      else if f = ''date'' then map_option PyStr (date invoice)
      else if f = ''total_amount'' then map_option PyFloat (total_amount invoice)
      else if f = ''tax_amount'' then map_option PyFloat (tax_amount invoice)
      else if f = ''gst_number'' then map_option PyStr (gst_number invoice)
      else None)"

definition summary_keywords :: "string list" where
  "summary_keywords = [''SUBTOTAL'', ''TAX'', ''TOTAL'', ''BALANCE'', ''GST'', ''PAYABLE'']"

definition rounded_ratio :: "pyfloat \<Rightarrow> pyfloat \<Rightarrow> pyfloat option" where
  \<comment> \<open>\<open>round(total / rate)\<close> as a float, when it has a value\<close>
  "rounded_ratio t u =
     (case bind (fdiv t u) (\<lambda>d. bind (py_round d) float_of_int) of
        Inl e \<Rightarrow> None | Inr q \<Rightarrow> Some q)"

definition expected_quantity :: "pyfloat option \<Rightarrow> pyfloat option \<Rightarrow> pyfloat option" where
  \<comment> \<open>the quantity of an item with the given rate and total: the rounded ratio when both
      were parsed, the rate is above zero and the total is not zero, and 1.0 otherwise\<close>
  "expected_quantity up lt =
     (case (up, lt) of
        (Some u, Some t) \<Rightarrow>
          if gt_zero u \<and> t \<noteq> Finite 0 then rounded_ratio t u else Some (Finite 1)
      | _ \<Rightarrow> Some (Finite 1))"

definition amount_char :: "char \<Rightarrow> bool" where
  \<comment> \<open>a character of \<open>[\d,\.]\<close>\<close>
  "amount_char c = (py_isdigit c \<or> c = CHR '','' \<or> c = CHR ''.'')"

fun only_chars :: "(char \<Rightarrow> bool) \<Rightarrow> regex \<Rightarrow> bool" where
  \<comment> \<open>by its shape, the pattern reads only characters with the property\<close>
  "only_chars P Eps = True"
| "only_chars P (Atom its) = (\<forall>c. items_match its c \<longrightarrow> P c)"
| "only_chars P (Seq r1 r2) = (only_chars P r1 \<and> only_chars P r2)"
| "only_chars P (Alt r1 r2) = (only_chars P r1 \<and> only_chars P r2)"
| "only_chars P (Rep lo hi r) = only_chars P r"
| "only_chars P (Group m r) = only_chars P r"

fun groups_only :: "(char \<Rightarrow> bool) \<Rightarrow> nat \<Rightarrow> regex \<Rightarrow> bool" where
  \<comment> \<open>by its shape, the pattern captures in the group only characters with the property\<close>
  "groups_only P n Eps = True"
| "groups_only P n (Atom its) = True"
| "groups_only P n (Seq r1 r2) = (groups_only P n r1 \<and> groups_only P n r2)"
| "groups_only P n (Alt r1 r2) = (groups_only P n r1 \<and> groups_only P n r2)"
| "groups_only P n (Rep lo hi r) = groups_only P n r"
| "groups_only P n (Group m r) = (if m = n then only_chars P r else groups_only P n r)"

definition reads_only :: "(char \<Rightarrow> bool) \<Rightarrow> mstate \<Rightarrow> mstate \<Rightarrow> bool" where
  "reads_only P a b = (\<exists>w. fst a = w @ fst b \<and> list_all P w)"

definition group_has :: "(char \<Rightarrow> bool) \<Rightarrow> nat \<Rightarrow> caps \<Rightarrow> bool" where
  "group_has P n g = (\<forall>t. g n = Some t \<longrightarrow> list_all P t)"

definition keeps_chars :: "(char \<Rightarrow> bool) \<Rightarrow> nat \<Rightarrow> mstate \<Rightarrow> mstate \<Rightarrow> bool" where
  "keeps_chars P n a b = (group_has P n (snd a) \<longrightarrow> group_has P n (snd b))"

definition nonneg_or_inf :: "pyfloat option \<Rightarrow> bool" where
  \<comment> \<open>absent, a finite value that is not negative, or plus infinity\<close>
  "nonneg_or_inf x = (case x of None \<Rightarrow> True | Some (Finite a) \<Rightarrow> 0 \<le> a
                      | Some PInf \<Rightarrow> True | Some _ \<Rightarrow> False)"
section \<open>The matcher\<close>

lemma rep_iter_rel:
  assumes step: "\<And>a b. b \<in> set (f a) \<Longrightarrow> R a b"
    and refl: "\<And>a. R a a"
    and trans: "\<And>a b c. R a b \<Longrightarrow> R b c \<Longrightarrow> R a c"
  shows "b \<in> set (rep_iter f lo k a) \<Longrightarrow> R a b"
proof (induction k arbitrary: lo a b)
  case 0
  then show ?case using refl by (auto split: if_splits)
next
  case (Suc k)
  from Suc.prems consider
    (iter) c where "c \<in> set (f a)" "b \<in> set (rep_iter f (lo - 1) k c)"
    | (stop) "b = a"
    by (auto split: if_splits)
  then show ?case
  proof cases
    case iter
    then show ?thesis using step Suc.IH trans by blast
  next
    case stop
    then show ?thesis using refl by simp
  qed
qed

lemma rmatch_suffix: "(s', g') \<in> set (rmatch r (s, g)) \<Longrightarrow> \<exists>w. s = w @ s'"
proof (induction r arbitrary: s g s' g')
  case Eps
  then show ?case by simp
next
  case (Atom its)
  then show ?case by (auto split: list.splits if_splits)
next
  case (Seq r1 r2)
  then obtain t h where "(t, h) \<in> set (rmatch r1 (s, g))" "(s', g') \<in> set (rmatch r2 (t, h))"
    by auto
  with Seq.IH obtain w1 w2 where "s = w1 @ t" "t = w2 @ s'" by blast
  then show ?case by simp
next
  case (Alt r1 r2)
  then show ?case by auto
next
  case (Rep lo hi r)
  have "is_suffix (s, g) (s', g')"
  proof (rule rep_iter_rel [where f = "rmatch r" and R = is_suffix])
    show "(s', g') \<in> set (rep_iter (rmatch r) lo
            (case hi of None \<Rightarrow> lo + length (fst (s, g)) | Some h \<Rightarrow> h) (s, g))"
      using Rep.prems by simp
  next
    fix a b :: mstate
    assume "b \<in> set (rmatch r a)"
    then show "is_suffix a b"
      using Rep.IH [of "fst b" "snd b" "fst a" "snd a"] by (simp add: is_suffix_def)
  qed (auto simp: is_suffix_def)
  then show ?case by (simp add: is_suffix_def)
next
  case (Group n r)
  then show ?case by auto
qed


lemma starts_ci_iff:
  "starts_ci w s \<longleftrightarrow> length w \<le> length s \<and> map py_lower (take (length w) s) = map py_lower w"
  by (induction w s rule: starts_ci.induct) auto

lemma occurs_ci_iff:
  "occurs_ci w s \<longleftrightarrow> (\<exists>u x v. s = u @ x @ v \<and> map py_lower x = map py_lower w)"
proof (induction s)
  case Nil
  show ?case
  proof
    assume "occurs_ci w []"
    then have "w = []" by (cases w) auto
    then show "\<exists>u x v. [] = u @ x @ v \<and> map py_lower x = map py_lower w" by simp
  next
    assume "\<exists>u x v. [] = u @ x @ v \<and> map py_lower x = map py_lower w"
    then have "w = []" by auto
    then show "occurs_ci w []" by simp
  qed
next
  case (Cons c cs)
  show ?case
  proof
    assume "occurs_ci w (c # cs)"
    then consider "starts_ci w (c # cs)" | "occurs_ci w cs" by auto
    then show "\<exists>u x v. c # cs = u @ x @ v \<and> map py_lower x = map py_lower w"
    proof cases
      case 1
      then have "c # cs = [] @ take (length w) (c # cs) @ drop (length w) (c # cs)"
        and "map py_lower (take (length w) (c # cs)) = map py_lower w"
        by (simp_all add: starts_ci_iff)
      then show ?thesis by blast
    next
      case 2
      with Cons.IH obtain u x v where "cs = u @ x @ v" "map py_lower x = map py_lower w"
        by blast
      then have "c # cs = (c # u) @ x @ v" by simp
      then show ?thesis using \<open>map py_lower x = map py_lower w\<close> by blast
    qed
  next
    assume "\<exists>u x v. c # cs = u @ x @ v \<and> map py_lower x = map py_lower w"
    then obtain u x v where split: "c # cs = u @ x @ v" and eq: "map py_lower x = map py_lower w"
      by blast
    show "occurs_ci w (c # cs)"
    proof (cases u)
      case Nil
      from eq have "length x = length w" by (metis length_map)
      with split Nil eq have "starts_ci w (c # cs)"
        by (simp add: starts_ci_iff)
      then show ?thesis by simp
    next
      case (Cons d u')
      with split have "cs = u' @ x @ v" by simp
      with eq Cons.IH show ?thesis by auto
    qed
  qed
qed

lemma rmatch_lits:
  "rmatch (lits w) (s, g) = (if starts_ci w s then [(drop (length w) s, g)] else [])"
proof (induction w arbitrary: s)
  case Nil
  show ?case by (simp add: lits_def)
next
  case (Cons p ps)
  have unfold: "lits (p # ps) = Seq (Atom [CLit p]) (lits ps)" by (simp add: lits_def)
  show ?case
  proof (cases s)
    case Nil
    then show ?thesis by (simp add: unfold)
  next
    case (Cons c cs)
    then show ?thesis using Cons.IH [of cs] by (simp add: unfold items_match_def)
  qed
qed

lemma search_from_None_iff:
  "search_from r s = None \<longleftrightarrow> (\<forall>i \<le> length s. rmatch r (drop i s, Map.empty) = [])"
proof (induction s)
  case Nil
  show ?case by (auto split: list.splits)
next
  case (Cons c cs)
  have "(\<forall>i \<le> length (c # cs). rmatch r (drop i (c # cs), Map.empty) = []) \<longleftrightarrow>
        rmatch r (c # cs, Map.empty) = [] \<and> (\<forall>i \<le> length cs. rmatch r (drop i cs, Map.empty) = [])"
  proof
    assume a: "\<forall>i \<le> length (c # cs). rmatch r (drop i (c # cs), Map.empty) = []"
    from a [rule_format, of 0] have "rmatch r (c # cs, Map.empty) = []" by simp
    moreover have "\<forall>i \<le> length cs. rmatch r (drop i cs, Map.empty) = []"
    proof (intro allI impI)
      fix i assume "i \<le> length cs"
      with a [rule_format, of "Suc i"] show "rmatch r (drop i cs, Map.empty) = []" by simp
    qed
    ultimately show "rmatch r (c # cs, Map.empty) = [] \<and>
      (\<forall>i \<le> length cs. rmatch r (drop i cs, Map.empty) = [])" by simp
  next
    assume b: "rmatch r (c # cs, Map.empty) = [] \<and>
      (\<forall>i \<le> length cs. rmatch r (drop i cs, Map.empty) = [])"
    show "\<forall>i \<le> length (c # cs). rmatch r (drop i (c # cs), Map.empty) = []"
    proof (intro allI impI)
      fix i assume "i \<le> length (c # cs)"
      then show "rmatch r (drop i (c # cs), Map.empty) = []"
        using b by (cases i) auto
    qed
  qed
  with Cons.IH show ?case by (auto split: list.splits)
qed

lemma search_from_Some:
  "search_from r s = Some g \<Longrightarrow>
     \<exists>i s' rest. i \<le> length s \<and> rmatch r (drop i s, Map.empty) = (s', g) # rest
        \<and> (\<forall>j < i. rmatch r (drop j s, Map.empty) = [])"
proof (induction s)
  case Nil
  then show ?case by (auto split: list.splits)
next
  case (Cons c cs)
  show ?case
  proof (cases "rmatch r (c # cs, Map.empty)")
    case Nil
    with Cons.prems have "search_from r cs = Some g" by simp
    with Cons.IH obtain i s' rest where i: "i \<le> length cs"
      "rmatch r (drop i cs, Map.empty) = (s', g) # rest"
      "\<forall>j < i. rmatch r (drop j cs, Map.empty) = []" by blast
    have "\<forall>j < Suc i. rmatch r (drop j (c # cs), Map.empty) = []"
    proof (intro allI impI)
      fix j assume "j < Suc i"
      then show "rmatch r (drop j (c # cs), Map.empty) = []"
        using Nil i(3) by (cases j) auto
    qed
    with i(1,2) show ?thesis
      by (intro exI [of _ "Suc i"] exI [of _ s'] exI [of _ rest]) simp
  next
    case (Cons a rest)
    with Cons.prems obtain s' where "a = (s', g)" by (cases a) auto
    with Cons show ?thesis
      by (intro exI [of _ 0] exI [of _ s'] exI [of _ rest]) simp
  qed
qed


lemma rep_iter_numeral:
  "rep_iter f lo (numeral k) st =
     concat (map (rep_iter f (lo - 1) (pred_numeral k))
                 (filter (\<lambda>st'. 0 < lo \<or> length (fst st') < length (fst st)) (f st)))
     @ (if lo = 0 then [st] else [])"
  by (simp add: numeral_eq_Suc)

lemmas char_eval = py_lower_def py_isspace_def py_isdigit_def py_isword_def in_range_def
  sre_upper_def items_match_def Let_def

lemmas regex_eval = seqs_def alts_def lits_def amount_chars_def rep_iter_numeral char_eval


lemmas header_eval = is_known_vendor_def KNOWN_VENDOR_TEMPLATE_def py_upper_def effective_def
  re_search_def field_text_def py_strip_def

lemmas float_eval = parse_float_def py_float_def py_strip_def float_isspace_def absfloatvalue_def
  floatnumber_def number_def digitpart_def exponent_def digits_val_def
section \<open>The header fields\<close>

lemma rmatch_keeps:
  "(s', g') \<in> set (rmatch r (s, g)) \<Longrightarrow> g n \<noteq> None \<Longrightarrow> g' n \<noteq> None"
proof (induction r arbitrary: s g s' g')
  case Eps
  then show ?case by simp
next
  case (Atom its)
  then show ?case by (auto split: list.splits if_splits)
next
  case (Seq r1 r2)
  then obtain t h where "(t, h) \<in> set (rmatch r1 (s, g))" "(s', g') \<in> set (rmatch r2 (t, h))"
    by auto
  with Seq.IH Seq.prems(2) show ?case by blast
next
  case (Alt r1 r2)
  then show ?case by auto
next
  case (Rep lo hi r)
  have "keeps_group n (s, g) (s', g')"
  proof (rule rep_iter_rel [where f = "rmatch r" and R = "keeps_group n"])
    show "(s', g') \<in> set (rep_iter (rmatch r) lo
            (case hi of None \<Rightarrow> lo + length (fst (s, g)) | Some h \<Rightarrow> h) (s, g))"
      using Rep.prems by simp
  next
    fix a b :: mstate
    assume "b \<in> set (rmatch r a)"
    then show "keeps_group n a b"
      using Rep.IH [of "fst b" "snd b" "fst a" "snd a"] by (simp add: keeps_group_def)
  qed (auto simp: keeps_group_def)
  with Rep.prems(2) show ?case by (simp add: keeps_group_def)
next
  case (Group m r)
  then show ?case by auto
qed

lemma rmatch_sets_group:
  "sets_group n r \<Longrightarrow> (s', g') \<in> set (rmatch r (s, g)) \<Longrightarrow> g' n \<noteq> None"
proof (induction r arbitrary: s g s' g')
  case (Seq r1 r2)
  from Seq.prems(2) obtain t h where
    m: "(t, h) \<in> set (rmatch r1 (s, g))" "(s', g') \<in> set (rmatch r2 (t, h))"
    by auto
  from Seq.prems(1) consider "sets_group n r1" | "sets_group n r2" by auto
  then show ?case
  proof cases
    case 1
    with Seq.IH(1) m(1) have "h n \<noteq> None" by blast
    with m(2) show ?thesis by (rule rmatch_keeps)
  next
    case 2
    with Seq.IH(2) m(2) show ?thesis by blast
  qed
next
  case (Alt r1 r2)
  then show ?case by auto
next
  case (Group m r)
  then show ?case by auto
qed simp_all

lemma sets_group_ngroups: "sets_group n r \<Longrightarrow> n \<le> ngroups r"
  by (induction r) auto

lemma search_from_sets_group:
  assumes "sets_group n r" and "search_from r s = Some g"
  shows "g n \<noteq> None"
proof -
  from search_from_Some [OF assms(2)] obtain i s' rest where
    "rmatch r (drop i s, Map.empty) = (s', g) # rest" by blast
  then have "(s', g) \<in> set (rmatch r (drop i s, Map.empty))" by simp
  with assms(1) show ?thesis by (rule rmatch_sets_group)
qed

lemma extract_field_eq:
  assumes "sets_group 1 p"
  shows "extract_field f p raw = Inr (stored f (field_text p raw))"
proof (cases "search_from p raw")
  case None
  then show ?thesis
    by (simp add: extract_field_def re_search_def field_text_def stored_def)
next
  case (Some g)
  with assms have "g 1 \<noteq> None" by (rule search_from_sets_group)
  then obtain t where t: "g 1 = Some t" by blast
  from assms have "1 \<le> ngroups p" by (rule sets_group_ngroups)
  with Some t show ?thesis
    by (simp add: extract_field_def re_search_def field_text_def stored_def group_strip_def
        group_def bind_def)
qed

lemma store_apply:
  "(case r of None \<Rightarrow> d | Some v \<Rightarrow> d(f \<mapsto> v)) k = (if k = f \<and> r \<noteq> None then r else d k)"
  by (cases r) auto

lemma good_patterns:
  "sets_group 1 invoice_number_pattern" "sets_group 1 date_pattern"
  "sets_group 1 total_amount_pattern" "sets_group 1 tax_amount_pattern"
  "sets_group 1 vendor_name_pattern" "sets_group 1 gst_number_pattern"
  "sets_group 1 acme_invoice_number_pattern" "sets_group 1 acme_date_pattern"
  by (simp_all add: invoice_number_pattern_def date_pattern_def total_amount_pattern_def
      tax_amount_pattern_def vendor_name_pattern_def gst_number_pattern_def
      acme_invoice_number_pattern_def acme_date_pattern_def seqs_def)

lemma patterns_eq:
  "patterns raw =
     [(''invoice_number'', effective raw invoice_number_pattern acme_invoice_number_pattern),
      (''date'', effective raw date_pattern acme_date_pattern),
      (''total_amount'', total_amount_pattern),
      (''tax_amount'', tax_amount_pattern),
      (''vendor_name'', vendor_name_pattern),
      (''gst_number'', gst_number_pattern),
      (''line_item_pattern'', line_item_pattern)]"
  by (simp add: patterns_def INVOICE_CONFIG_def KNOWN_VENDOR_TEMPLATE_def effective_def)

lemma effective_good:
  "sets_group 1 (effective raw invoice_number_pattern acme_invoice_number_pattern)"
  "sets_group 1 (effective raw date_pattern acme_date_pattern)"
  using good_patterns by (simp_all add: effective_def)


lemma extract_fields_eq:
  "extract_fields (patterns raw) raw Map.empty = Inr
     (Map.empty
       (''invoice_number'' := stored ''invoice_number'' (field_text (effective raw invoice_number_pattern acme_invoice_number_pattern) raw),
        ''date'' := stored ''date'' (field_text (effective raw date_pattern acme_date_pattern) raw),
        ''total_amount'' := stored ''total_amount'' (field_text total_amount_pattern raw),
        ''tax_amount'' := stored ''tax_amount'' (field_text tax_amount_pattern raw),
        ''vendor_name'' := stored ''vendor_name'' (field_text vendor_name_pattern raw),
        ''gst_number'' := stored ''gst_number'' (field_text gst_number_pattern raw)))"
  unfolding patterns_eq
  by (simp add: good_patterns [THEN extract_field_eq] effective_good [THEN extract_field_eq]
      bind_def store_apply fun_eq_iff)


lemma str_stored:
  "f \<notin> set [''total_amount'', ''tax_amount''] \<Longrightarrow>
     (case stored f t of Some (PyStr s) \<Rightarrow> Some s | _ \<Rightarrow> None) = t"
  by (simp add: stored_def split: option.splits)

lemma float_stored:
  "f \<in> set [''total_amount'', ''tax_amount''] \<Longrightarrow>
     (case stored f t of Some (PyFloat x) \<Rightarrow> Some x | _ \<Rightarrow> None) = Option.bind t parse_float"
  by (simp add: stored_def split: option.splits)

lemma parse_invoice_data_eq:
  "parse_invoice_data u raw = Inr
     \<lparr>invoice_id = u,
      vendor_name = field_text vendor_name_pattern raw,
      invoice_number = field_text (effective raw invoice_number_pattern acme_invoice_number_pattern) raw,
      date = field_text (effective raw date_pattern acme_date_pattern) raw,
      total_amount = Option.bind (field_text total_amount_pattern raw) parse_float,
      tax_amount = Option.bind (field_text tax_amount_pattern raw) parse_float,
      gst_number = field_text gst_number_pattern raw,
      line_items = parse_line_items raw line_item_pattern,
      raw_text = raw\<rparr>"
proof -
  have lip: "dict_get INVOICE_CONFIG ''line_item_pattern'' = Inr line_item_pattern"
    by (simp add: dict_get_def INVOICE_CONFIG_def)
  have s1: "str_field (Map.empty
       (''invoice_number'' := a, ''date'' := b, ''total_amount'' := c, ''tax_amount'' := d,
        ''vendor_name'' := e, ''gst_number'' := f)) ''vendor_name'' =
        (case e of Some (PyStr s) \<Rightarrow> Some s | _ \<Rightarrow> None)" for a b c d e f
    by (simp add: str_field_def)
  have s2: "str_field (Map.empty
       (''invoice_number'' := a, ''date'' := b, ''total_amount'' := c, ''tax_amount'' := d,
        ''vendor_name'' := e, ''gst_number'' := f)) ''invoice_number'' =
        (case a of Some (PyStr s) \<Rightarrow> Some s | _ \<Rightarrow> None)" for a b c d e f
    by (simp add: str_field_def)
  have s3: "str_field (Map.empty
       (''invoice_number'' := a, ''date'' := b, ''total_amount'' := c, ''tax_amount'' := d,
        ''vendor_name'' := e, ''gst_number'' := f)) ''date'' =
        (case b of Some (PyStr s) \<Rightarrow> Some s | _ \<Rightarrow> None)" for a b c d e f
    by (simp add: str_field_def)
  have s4: "str_field (Map.empty
       (''invoice_number'' := a, ''date'' := b, ''total_amount'' := c, ''tax_amount'' := d,
        ''vendor_name'' := e, ''gst_number'' := f)) ''gst_number'' =
        (case f of Some (PyStr s) \<Rightarrow> Some s | _ \<Rightarrow> None)" for a b c d e f
    by (simp add: str_field_def)
  have f1: "float_field (Map.empty
       (''invoice_number'' := a, ''date'' := b, ''total_amount'' := c, ''tax_amount'' := d,
        ''vendor_name'' := e, ''gst_number'' := f)) ''total_amount'' =
        (case c of Some (PyFloat x) \<Rightarrow> Some x | _ \<Rightarrow> None)" for a b c d e f
    by (simp add: float_field_def)
  have f2: "float_field (Map.empty
       (''invoice_number'' := a, ''date'' := b, ''total_amount'' := c, ''tax_amount'' := d,
        ''vendor_name'' := e, ''gst_number'' := f)) ''tax_amount'' =
        (case d of Some (PyFloat x) \<Rightarrow> Some x | _ \<Rightarrow> None)" for a b c d e f
    by (simp add: float_field_def)
  show ?thesis
    by (simp add: parse_invoice_data_def extract_fields_eq lip bind_def s1 s2 s3 s4 f1 f2
        str_stored float_stored)
qed







lemma field_text_None: "re_search p raw = None \<Longrightarrow> field_text p raw = None"
  by (simp add: re_search_def field_text_def)

lemma field_text_group:
  "re_search p raw = Some m \<Longrightarrow> group m 1 = Inr (Some t) \<Longrightarrow> field_text p raw = Some (py_strip t)"
  by (auto simp: re_search_def field_text_def group_def split: if_splits)

lemma header_value_simps:
  "header_value i ''vendor_name'' = map_option PyStr (vendor_name i)"
  "header_value i ''invoice_number'' = map_option PyStr (invoice_number i)"
  "header_value i ''date'' = map_option PyStr (date i)"
  "header_value i ''total_amount'' = map_option PyFloat (total_amount i)"
  "header_value i ''tax_amount'' = map_option PyFloat (tax_amount i)"
  "header_value i ''gst_number'' = map_option PyStr (gst_number i)"
  by (simp_all add: header_value_def)

lemma patterns_cases:
  assumes "(f, p) \<in> set (patterns raw)"
  obtains
    (invoice_number) "f = ''invoice_number''"
      "p = effective raw invoice_number_pattern acme_invoice_number_pattern"
  | (date) "f = ''date''" "p = effective raw date_pattern acme_date_pattern"
  | (total_amount) "f = ''total_amount''" "p = total_amount_pattern"
  | (tax_amount) "f = ''tax_amount''" "p = tax_amount_pattern"
  | (vendor_name) "f = ''vendor_name''" "p = vendor_name_pattern"
  | (gst_number) "f = ''gst_number''" "p = gst_number_pattern"
  | (line_item_pattern) "f = ''line_item_pattern''" "p = line_item_pattern"
proof -
  from assms have
    "(f = ''invoice_number'' \<and>
        p = effective raw invoice_number_pattern acme_invoice_number_pattern) \<or>
     (f = ''date'' \<and> p = effective raw date_pattern acme_date_pattern) \<or>
     (f = ''total_amount'' \<and> p = total_amount_pattern) \<or>
     (f = ''tax_amount'' \<and> p = tax_amount_pattern) \<or>
     (f = ''vendor_name'' \<and> p = vendor_name_pattern) \<or>
     (f = ''gst_number'' \<and> p = gst_number_pattern) \<or>
     (f = ''line_item_pattern'' \<and> p = line_item_pattern)"
    unfolding patterns_eq by (simp only: list.set insert_iff empty_iff prod.inject simp_thms)
  then show thesis
    apply (elim disjE conjE)
          apply (erule (1) invoice_number)
         apply (erule (1) date)
        apply (erule (1) total_amount)
       apply (erule (1) tax_amount)
      apply (erule (1) vendor_name)
     apply (erule (1) gst_number)
    apply (erule (1) line_item_pattern)
    done
qed


section \<open>The float model\<close>

lemma floor_log2_ge1:
  assumes "1 \<le> q"
  shows "power_int 2 (floor_log2 q) \<le> q" and "q < power_int 2 (floor_log2 q + 1)"
proof -
  define n where "n = nat \<lfloor>q\<rfloor>"
  define L where "L = floorlog 2 n"
  from assms have fl: "1 \<le> \<lfloor>q\<rfloor>" by simp
  then have n1: "1 \<le> n" unfolding n_def by linarith
  from fl have nq: "of_nat n = (of_int \<lfloor>q\<rfloor> :: rat)" by (simp add: n_def)
  from floorlog_bounds [of n 2] n1 have b: "2 ^ (L - 1) \<le> n" "n < 2 ^ L" by (simp_all add: L_def)
  from n1 have L1: "1 \<le> L" by (simp add: L_def floorlog_def)
  have e: "floor_log2 q = int L - 1" using assms by (simp add: floor_log2_def L_def n_def)
  have p1: "power_int (2::rat) (int L - 1) = 2 ^ (L - 1)"
    using L1 by (metis int_ops(6) of_nat_1 of_nat_less_iff power_int_of_nat not_less of_nat_diff)
  have p2: "power_int (2::rat) (int L - 1 + 1) = 2 ^ L" by simp
  from b(1) have "(2::rat) ^ (L - 1) \<le> of_nat n"
    by (metis of_nat_le_iff of_nat_numeral of_nat_power)
  also have "\<dots> \<le> q" by (simp add: nq)
  finally show "power_int 2 (floor_log2 q) \<le> q" by (simp add: e p1)
  from b(2) have "n + 1 \<le> 2 ^ L" by simp
  then have "(of_nat (n + 1) :: rat) \<le> 2 ^ L"
    by (metis of_nat_le_iff of_nat_numeral of_nat_power)
  moreover have "q < of_nat (n + 1)" using nq by simp linarith
  ultimately show "q < power_int 2 (floor_log2 q + 1)" by (simp add: e p2)
qed

lemma floor_log2_lt1:
  assumes "0 < q" "q < 1"
  shows "power_int 2 (floor_log2 q) \<le> q" and "q < power_int 2 (floor_log2 q + 1)"
proof -
  define r where "r = 1 / q"
  define n where "n = nat (\<lceil>r\<rceil> - 1)"
  define L where "L = floorlog 2 n"
  from assms have r1: "1 < r" by (simp add: r_def)
  then have c2: "2 \<le> \<lceil>r\<rceil>" by linarith
  then have n1: "1 \<le> n" unfolding n_def by linarith
  from c2 have nc: "(of_nat n :: rat) = of_int \<lceil>r\<rceil> - 1" by (simp add: n_def)
  from floorlog_bounds [of n 2] n1 have b: "2 ^ (L - 1) \<le> n" "n < 2 ^ L" by (simp_all add: L_def)
  from n1 have L1: "1 \<le> L" by (simp add: L_def floorlog_def)
  have e: "floor_log2 q = - int L" using assms by (simp add: floor_log2_def L_def n_def r_def)
  have qr: "q = 1 / r" using assms by (simp add: r_def)
  from b(2) have "n + 1 \<le> 2 ^ L" by simp
  then have "(of_nat (n + 1) :: rat) \<le> 2 ^ L"
    by (metis of_nat_le_iff of_nat_numeral of_nat_power)
  moreover have "r \<le> of_nat (n + 1)" using nc by simp
  ultimately have rl: "r \<le> 2 ^ L" by simp
  have "1 / 2 ^ L \<le> 1 / r" using rl r1 by (simp add: frac_le)
  moreover have pe: "power_int (2::rat) (floor_log2 q) = 1 / 2 ^ L"
    by (simp add: e power_int_minus inverse_eq_divide)
  moreover have qr': "1 / r = q" by (simp add: r_def)
  ultimately show "power_int 2 (floor_log2 q) \<le> q" by simp
  from b(1) have A: "(2::rat) ^ (L - 1) \<le> of_nat n"
    by (metis of_nat_le_iff of_nat_numeral of_nat_power)
  have B: "of_nat n < r" using nc by simp linarith
  from A B have lr: "(2::rat) ^ (L - 1) < r" by (rule le_less_trans)
  have "1 / r < 1 / 2 ^ (L - 1)" using lr by (simp add: frac_less2)
  moreover have "power_int (2::rat) (- int L + 1) = 1 / 2 ^ (L - 1)"
  proof -
    have "- int L + 1 = - int (L - 1)" using L1 by simp
    then show ?thesis by (simp only: power_int_minus power_int_of_nat inverse_eq_divide)
  qed
  ultimately show "q < power_int 2 (floor_log2 q + 1)" unfolding e using qr' by simp
qed

lemma floor_log2_bounds:
  assumes "0 < q"
  shows "power_int 2 (floor_log2 q) \<le> q" and "q < power_int 2 (floor_log2 q + 1)"
  using assms floor_log2_ge1 [of q] floor_log2_lt1 [of q] by (cases "1 \<le> q"; simp)+

lemma floor_log2_eqI:
  assumes "0 < q" "power_int 2 e \<le> q" "q < power_int 2 (e + 1)"
  shows "floor_log2 q = e"
proof -
  let ?f = "floor_log2 q"
  from floor_log2_bounds [OF assms(1)] have b: "power_int 2 ?f \<le> q" "q < power_int 2 (?f + 1)" .
  have "?f < e + 1"
  proof (rule ccontr)
    assume "\<not> ?f < e + 1"
    then have "power_int (2::rat) (e + 1) \<le> power_int 2 ?f"
      by (intro power_int_increasing) simp_all
    with b(1) assms(3) show False by simp
  qed
  moreover have "e < ?f + 1"
  proof (rule ccontr)
    assume "\<not> e < ?f + 1"
    then have "power_int (2::rat) (?f + 1) \<le> power_int 2 e"
      by (intro power_int_increasing) simp_all
    with b(2) assms(2) show False by simp
  qed
  ultimately show ?thesis by simp
qed


lemma round_half_even_of_int [simp]: "round_half_even (of_int k) = k"
  by (simp add: round_half_even_def)

lemma round_half_even_nonneg: "0 \<le> q \<Longrightarrow> 0 \<le> round_half_even q"
  by (auto simp: round_half_even_def Let_def)

lemma round64_nonneg:
  assumes "0 \<le> q"
  shows "round64 q = PInf \<or> (\<exists>v. 0 \<le> v \<and> round64 q = Finite v)"
proof (cases "q = 0")
  case True
  then show ?thesis by (simp add: round64_def)
next
  case False
  with assms have pos: "0 < q" by simp
  define ulp :: rat where "ulp = power_int 2 (max (floor_log2 \<bar>q\<bar>) (- 1022) - 52)"
  define v where "v = of_int (round_half_even (q / ulp)) * ulp"
  have u: "0 < ulp" by (simp add: ulp_def)
  with pos have "0 \<le> q / ulp" by simp
  then have "0 \<le> round_half_even (q / ulp)" by (rule round_half_even_nonneg)
  with u have "0 \<le> v" by (simp add: v_def)
  moreover have "round64 q = (if 2 ^ 1024 \<le> \<bar>v\<bar> then PInf else Finite v)"
    using pos by (simp add: round64_def Let_def v_def ulp_def)
  ultimately show ?thesis by auto
qed

lemma round64_dyadic:
  assumes m: "\<bar>m\<bar> < 2 ^ 53" and k: "- 1074 \<le> k" "k \<le> 971"
  shows "round64 (of_int m * power_int 2 k) = Finite (of_int m * power_int 2 k)"
proof (cases "m = 0")
  case True
  then show ?thesis by (simp add: round64_def)
next
  case False
  define q :: rat where "q = of_int m * power_int 2 k"
  have q0: "q \<noteq> 0" using False by (simp add: q_def)
  then have aq: "0 < \<bar>q\<bar>" by simp
  define e where "e = floor_log2 \<bar>q\<bar>"
  define e' where "e' = max e (- 1022)"
  from floor_log2_bounds [OF aq] have lo: "power_int 2 e \<le> \<bar>q\<bar>" by (simp add: e_def)
  have absq: "\<bar>q\<bar> = of_int \<bar>m\<bar> * power_int 2 k"
    by (simp add: q_def abs_mult)
  from m have "(of_int \<bar>m\<bar> :: rat) < of_int (2 ^ 53)" by (simp only: of_int_less_iff)
  then have "(of_int \<bar>m\<bar> :: rat) < 2 ^ 53" by simp
  then have "\<bar>q\<bar> < 2 ^ 53 * power_int 2 k"
    unfolding absq by (simp add: mult_strict_right_mono)
  also have "\<dots> = power_int 2 (53 + k)"
    by (simp add: power_int_add)
  finally have hi: "\<bar>q\<bar> < power_int 2 (53 + k)" .
  have "e < 53 + k"
  proof (rule ccontr)
    assume "\<not> e < 53 + k"
    then have "power_int (2::rat) (53 + k) \<le> power_int 2 e"
      by (intro power_int_increasing) simp_all
    with lo hi show False by simp
  qed
  with k(1) have d: "0 \<le> 52 + k - e'" by (simp add: e'_def)
  define ulp :: rat where "ulp = power_int 2 (e' - 52)"
  have u: "ulp \<noteq> 0" by (simp add: ulp_def)
  have "power_int (2::rat) k / ulp = power_int 2 (k - (e' - 52))"
    unfolding ulp_def by (simp add: power_int_diff)
  also have "k - (e' - 52) = int (nat (52 + k - e'))" using d by simp
  also have "power_int (2::rat) (int (nat (52 + k - e'))) = 2 ^ nat (52 + k - e')"
    by (simp only: power_int_of_nat)
  finally have p: "power_int (2::rat) k / ulp = 2 ^ nat (52 + k - e')" .
  have "q / ulp = of_int m * (power_int 2 k / ulp)" by (simp add: q_def)
  also have "\<dots> = of_int (m * 2 ^ nat (52 + k - e'))" unfolding p by simp
  finally have "round_half_even (q / ulp) = m * 2 ^ nat (52 + k - e')"
    by (simp only: round_half_even_of_int)
  then have "of_int (round_half_even (q / ulp)) * ulp = of_int m * (2 ^ nat (52 + k - e') * ulp)"
    by simp
  also have "2 ^ nat (52 + k - e') * ulp = power_int 2 k"
    using p u by (simp add: nonzero_divide_eq_eq)
  finally have "of_int (round_half_even (q / ulp)) * ulp = q" by (simp add: q_def)
  moreover have "\<not> 2 ^ 1024 \<le> \<bar>q\<bar>"
  proof -
    have "power_int (2::rat) (53 + k) \<le> power_int 2 1024"
      using k(2) by (intro power_int_increasing) simp_all
    with hi show ?thesis by simp
  qed
  ultimately show ?thesis
    using q0 by (simp add: round64_def Let_def q_def [symmetric] e_def [symmetric]
        e'_def [symmetric] ulp_def [symmetric])
qed

lemma round64_int: "\<bar>n\<bar> < 2 ^ 53 \<Longrightarrow> round64 (of_int n) = Finite (of_int n)"
  using round64_dyadic [of n 0] by simp

lemma round64_numeral [simp]:
  "numeral n < (2::int) ^ 53 \<Longrightarrow> round64 (numeral n) = Finite (numeral n)"
  using round64_int [of "numeral n"] by simp

section \<open>The line items\<close>

lemma start_index_None_iff:
  "start_index lines = None \<longleftrightarrow> (\<forall>l \<in> set lines. re_search item_header_pattern l = None)"
proof (induction lines)
  case Nil
  show ?case by simp
next
  case (Cons a lines)
  then show ?case by (cases "re_search item_header_pattern a") simp_all
qed

lemma items_loop_origin:
  "item \<in> set (items_loop pattern lines) \<Longrightarrow>
     \<exists>line \<in> set lines. process_line pattern line = Some item"
  by (induction lines) (auto split: option.splits)

lemma parse_line_items_origin:
  assumes "item \<in> set (parse_line_items raw pattern)"
  shows "\<exists>line \<in> set (split_on CHR 0x0A raw). process_line pattern line = Some item"
proof -
  from assms obtain i where
    "item \<in> set (items_loop pattern (drop i (split_on CHR 0x0A raw)))"
    by (auto simp: parse_line_items_def Let_def split: option.splits)
  then obtain line where "line \<in> set (drop i (split_on CHR 0x0A raw))"
    and "process_line pattern line = Some item"
    using items_loop_origin by blast
  then show ?thesis by (meson in_set_dropD)
qed

lemma occurs_ci_drop: "occurs_ci w s \<longleftrightarrow> (\<exists>i \<le> length s. starts_ci w (drop i s))"
proof (induction s)
  case Nil
  show ?case by simp
next
  case (Cons c cs)
  show ?case
  proof
    assume "occurs_ci w (c # cs)"
    then consider "starts_ci w (c # cs)" | "occurs_ci w cs" by auto
    then show "\<exists>i \<le> length (c # cs). starts_ci w (drop i (c # cs))"
    proof cases
      case 1
      then show ?thesis by (intro exI [of _ 0]) simp
    next
      case 2
      with Cons.IH obtain i where "i \<le> length cs" "starts_ci w (drop i cs)" by blast
      then show ?thesis by (intro exI [of _ "Suc i"]) simp
    qed
  next
    assume "\<exists>i \<le> length (c # cs). starts_ci w (drop i (c # cs))"
    then obtain i where i: "i \<le> length (c # cs)" "starts_ci w (drop i (c # cs))" by blast
    show "occurs_ci w (c # cs)"
    proof (cases i)
      case 0
      with i show ?thesis by simp
    next
      case (Suc j)
      with i have "j \<le> length cs" "starts_ci w (drop j cs)" by simp_all
      with Cons.IH show ?thesis by auto
    qed
  qed
qed

lemma rmatch_summary:
  "rmatch summary_pattern (s, g) = [] \<longleftrightarrow> (\<forall>kw \<in> set summary_keywords. \<not> starts_ci kw s)"
  by (simp add: summary_pattern_def summary_keywords_def alts_def rmatch_lits)

lemma summary_search_None:
  "re_search summary_pattern line = None \<longleftrightarrow>
     (\<forall>kw \<in> set summary_keywords. \<not> occurs_ci kw line)"
  unfolding re_search_def
  by (simp only: map_option_is_None search_from_None_iff rmatch_summary occurs_ci_drop) blast

lemma process_line_no_keyword:
  assumes "process_line pattern line = Some item"
  shows "\<forall>kw \<in> set summary_keywords. \<not> occurs_ci kw line"
proof -
  from assms have "re_search summary_pattern line = None"
    by (simp add: process_line_def split: if_splits)
  then show ?thesis by (simp only: summary_search_None)
qed


lemma process_line_item:
  assumes "process_line pattern line = Some item"
  obtains m tok s1 s2 q where
    "re_search summary_pattern line = None"
    "re_search pattern line = Some m"
    "py_index (py_split line) 2 = Inr tok"
    "group_strip m 1 = Inr s1"
    "group_strip m 2 = Inr s2"
    "item_quantity (parse_float s1) (parse_float s2) = Inr q"
    "item = \<lparr>quantity = Some q, description = ''ITEM NAME '' @ tok,
             unit_price = parse_float s1, line_total = parse_float s2\<rparr>"
proof -
  from assms have none: "re_search summary_pattern line = None"
    by (simp add: process_line_def split: if_splits)
  with assms obtain m where m: "re_search pattern line = Some m"
    and body: "line_body line m = Inr (Some item)"
    by (simp add: process_line_def split: option.splits sum.splits)
  from body obtain tok where tok: "py_index (py_split line) 2 = Inr tok"
    by (cases "py_index (py_split line) 2") (simp_all add: line_body_def bind_def)
  from body tok obtain s1 where s1: "group_strip m 1 = Inr s1"
    by (cases "group_strip m 1") (simp_all add: line_body_def bind_def)
  from body tok s1 obtain s2 where s2: "group_strip m 2 = Inr s2"
    by (cases "group_strip m 2") (simp_all add: line_body_def bind_def Let_def)
  from body tok s1 s2 obtain q where
    q: "item_quantity (parse_float s1) (parse_float s2) = Inr q"
    by (cases "item_quantity (parse_float s1) (parse_float s2)")
      (simp_all add: line_body_def bind_def Let_def)
  from body tok s1 s2 q have
    "item = \<lparr>quantity = Some q, description = ''ITEM NAME '' @ tok,
             unit_price = parse_float s1, line_total = parse_float s2\<rparr>"
    by (simp add: line_body_def bind_def Let_def)
  with none m tok s1 s2 q show thesis by (rule that)
qed

lemma gt_zero_nonzero: "gt_zero u \<Longrightarrow> u \<noteq> Finite 0"
  by (cases u) auto

lemma item_quantity_expected:
  "item_quantity up lt = Inr q \<Longrightarrow> expected_quantity up lt = Some q"
  by (cases up; cases lt)
    (auto simp: item_quantity_def expected_quantity_def rounded_ratio_def truthy_def
      dest: gt_zero_nonzero split: if_splits)

lemma process_line_quantity:
  assumes "process_line pattern line = Some item"
  shows "quantity item = expected_quantity (unit_price item) (line_total item)"
    and "quantity item \<noteq> None"
  using assms by (auto elim!: process_line_item dest: item_quantity_expected)

section \<open>The claims\<close>

text \<open>
  C8. Parsing is deterministic up to the identifier: two runs of the parser on the same raw
  text, each with its own freshly drawn identifier, both succeed and yield records that
  agree on vendor name, invoice number, date, total amount, tax amount, GST number, line
  items and raw text; only the identifier, which is the one drawn for the run, may differ.
\<close>

theorem parse_deterministic:
  "\<exists>a b. parse_invoice_data u1 raw = Inr a \<and> parse_invoice_data u2 raw = Inr b \<and>
     invoice_id a = u1 \<and> invoice_id b = u2 \<and>
     vendor_name a = vendor_name b \<and> invoice_number a = invoice_number b \<and>
     date a = date b \<and> total_amount a = total_amount b \<and> tax_amount a = tax_amount b \<and>
     gst_number a = gst_number b \<and> line_items a = line_items b \<and> raw_text a = raw_text b"
  by (simp add: parse_invoice_data_eq)

theorem parse_deterministic_witness:
  "\<exists>a b. parse_invoice_data ''run-1'' ''Bill # 77'' = Inr a \<and>
     parse_invoice_data ''run-2'' ''Bill # 77'' = Inr b \<and>
     invoice_id a = ''run-1'' \<and> invoice_id b = ''run-2'' \<and>
     vendor_name a = vendor_name b \<and> invoice_number a = invoice_number b \<and>
     date a = date b \<and> total_amount a = total_amount b \<and> tax_amount a = tax_amount b \<and>
     gst_number a = gst_number b \<and> line_items a = line_items b \<and> raw_text a = raw_text b"
  by (rule parse_deterministic)

text \<open>
  C5. Extraction always succeeds. A header field whose pattern in force has no match
  anywhere in the raw text is absent in the result; and a monetary field (total amount, tax
  amount) whose matched text fails numeric cleaning is absent as well, with no error raised.
\<close>

theorem absent_fields:
  "\<exists>invoice. parse_invoice_data u raw = Inr invoice \<and>
     (\<forall>f p. (f, p) \<in> set (patterns raw) \<and> f \<noteq> ''line_item_pattern'' \<and>
            re_search p raw = None \<longrightarrow> header_value invoice f = None) \<and>
     (\<forall>f p m t. (f, p) \<in> set (patterns raw) \<and> f \<in> {''total_amount'', ''tax_amount''} \<and>
            re_search p raw = Some m \<and> group m 1 = Inr (Some t) \<and>
            parse_float (py_strip t) = None \<longrightarrow> header_value invoice f = None)"
proof -
  define i where "i = \<lparr>invoice_id = u,
      vendor_name = field_text vendor_name_pattern raw,
      invoice_number = field_text (effective raw invoice_number_pattern acme_invoice_number_pattern) raw,
      date = field_text (effective raw date_pattern acme_date_pattern) raw,
      total_amount = Option.bind (field_text total_amount_pattern raw) parse_float,
      tax_amount = Option.bind (field_text tax_amount_pattern raw) parse_float,
      gst_number = field_text gst_number_pattern raw,
      line_items = parse_line_items raw line_item_pattern,
      raw_text = raw\<rparr>"
  have a: "header_value i f = None"
    if mem: "(f, p) \<in> set (patterns raw)" and f: "f \<noteq> ''line_item_pattern''"
      and none: "re_search p raw = None"
    for f p
    using mem
  proof (cases rule: patterns_cases)
    case line_item_pattern
    with f show ?thesis by simp
  qed (use none in \<open>simp_all add: header_value_simps i_def field_text_None\<close>)
  have b: "header_value i f = None"
    if mem: "(f, p) \<in> set (patterns raw)" and f: "f \<in> {''total_amount'', ''tax_amount''}"
      and m: "re_search p raw = Some m" "group m 1 = Inr (Some t)"
      and pf: "parse_float (py_strip t) = None"
    for f p m t
  proof -
    from m have ft: "field_text p raw = Some (py_strip t)" by (rule field_text_group)
    from mem show ?thesis
    proof (cases rule: patterns_cases)
      case total_amount
      with ft pf show ?thesis by (simp add: header_value_simps i_def)
    next
      case tax_amount
      with ft pf show ?thesis by (simp add: header_value_simps i_def)
    qed (use f in simp_all)
  qed
  have "parse_invoice_data u raw = Inr i"
    unfolding i_def by (rule parse_invoice_data_eq)
  with a b show ?thesis by (intro exI [of _ i] conjI allI impI) (elim conjE | assumption)+
qed

theorem absent_fields_witness:
  "\<exists>invoice. parse_invoice_data ''id'' ''TOTAL 1.2.3'' = Inr invoice \<and>
     header_value invoice ''date'' = None \<and> header_value invoice ''total_amount'' = None"
proof -
  let ?raw = "''TOTAL 1.2.3''"
  from absent_fields [of "''id''" ?raw] obtain invoice where
    ok: "parse_invoice_data ''id'' ?raw = Inr invoice"
    and miss: "\<forall>f p. (f, p) \<in> set (patterns ?raw) \<and> f \<noteq> ''line_item_pattern'' \<and>
            re_search p ?raw = None \<longrightarrow> header_value invoice f = None"
    and bad: "\<forall>f p m t. (f, p) \<in> set (patterns ?raw) \<and> f \<in> {''total_amount'', ''tax_amount''} \<and>
            re_search p ?raw = Some m \<and> group m 1 = Inr (Some t) \<and>
            parse_float (py_strip t) = None \<longrightarrow> header_value invoice f = None"
    by (elim exE conjE) (rule that; assumption)
  have unknown: "\<not> is_known_vendor ?raw"
    by (simp add: header_eval char_eval)
  have "header_value invoice ''date'' = None"
  proof (rule miss [rule_format, of _ date_pattern], intro conjI)
    show "(''date'', date_pattern) \<in> set (patterns ?raw)"
      using unknown by (simp add: patterns_eq effective_def)
    show "''date'' \<noteq> ''line_item_pattern''" by simp
    show "re_search date_pattern ?raw = None"
      by (simp add: re_search_def date_pattern_def regex_eval)
  qed
  moreover have "header_value invoice ''total_amount'' = None"
  proof (rule bad [rule_format, of _ total_amount_pattern "(1, [1 \<mapsto> ''1.2.3''])" "''1.2.3''"],
      intro conjI)
    show "(''total_amount'', total_amount_pattern) \<in> set (patterns ?raw)"
      by (simp add: patterns_eq)
    show "''total_amount'' \<in> {''total_amount'', ''tax_amount''}" by simp
    show "re_search total_amount_pattern ?raw = Some (1, [1 \<mapsto> ''1.2.3''])"
      by (simp add: re_search_def total_amount_pattern_def regex_eval)
    show "group (1, [1 \<mapsto> ''1.2.3'']) 1 = Inr (Some ''1.2.3'')"
      by (simp add: group_def)
    show "parse_float (py_strip ''1.2.3'') = None"
      by (simp add: float_eval char_eval)
  qed
  ultimately show ?thesis using ok by simp
qed



end
